theory Spec2Isabelle
  imports Main
begin

section \<open>Python values used by the feeds\<close>

text \<open>
  Text is a \<^typ>\<open>string\<close>: a list of characters, each read as one code point in the
  range 0..255. The zone files and URLs handled here are ASCII; the classification of the
  code points 128..255 follows Python's for the same code points.
\<close>

abbreviation TAB :: char where "TAB \<equiv> CHR 0x09"
abbreviation LF :: char where "LF \<equiv> CHR 0x0A"
abbreviation CR :: char where "CR \<equiv> CHR 0x0D"

text \<open>The exceptions that the modelled code can meet.\<close>

datatype py_error =
    IndexError
  | KeyError
  | ValueError
  | TypeError
  | AttributeError
  | OSError
  | GithubException
  | ClientError
  | StreamError
  | JSONDecodeError

text \<open>Records of the \<open>logger\<close>: level, message template and the arguments filled in.\<close>

datatype log_level = INFO | WARNING | ERROR

datatype log_arg = ArgStr string | ArgErr py_error

type_synonym log_record = "log_level \<times> string \<times> log_arg list"

text \<open>
  What a generator gave before it ended: the values yielded, in order, and the exception
  that ended it (\<open>None\<close> when it ran to its end).
\<close>

record 'a generated =
  yielded :: "'a list"
  raised :: "py_error option"

subsection \<open>\<open>str\<close> methods\<close>

text \<open>\<open>str.isspace\<close> on one character: the separators of \<open>str.split()\<close>.\<close>

definition isspace :: "char \<Rightarrow> bool" where
  "isspace c \<longleftrightarrow>
     c \<in> {CHR 0x09, CHR 0x0A, CHR 0x0B, CHR 0x0C, CHR 0x0D,
          CHR 0x1C, CHR 0x1D, CHR 0x1E, CHR 0x1F, CHR 0x20, CHR 0x85, CHR 0xA0}"

text \<open>The line boundaries of \<open>str.splitlines\<close>.\<close>

definition islinebreak :: "char \<Rightarrow> bool" where
  "islinebreak c \<longleftrightarrow>
     c \<in> {CHR 0x0A, CHR 0x0B, CHR 0x0C, CHR 0x0D, CHR 0x1C, CHR 0x1D, CHR 0x1E, CHR 0x85}"

text \<open>\<open>str.lower\<close> on one character, and on a string.\<close>

definition lower_char :: "char \<Rightarrow> char" where
  "lower_char c =
     (let n = (of_char c :: nat)
      in if (65 \<le> n \<and> n \<le> 90) \<or> (192 \<le> n \<and> n \<le> 222 \<and> n \<noteq> 215)
         then char_of (n + 32) else c)"

definition lower :: "string \<Rightarrow> string" where
  "lower s = map lower_char s"

text \<open>
  \<open>s.split()\<close>: the maximal runs of non-whitespace characters, in order. The first
  argument is the run being read, reversed.
\<close>

fun split_run :: "string \<Rightarrow> string \<Rightarrow> string list" where
  "split_run cur [] = (if cur = [] then [] else [rev cur])"
| "split_run cur (c # cs) =
     (if isspace c
      then (if cur = [] then split_run [] cs else rev cur # split_run [] cs)
      else split_run (c # cur) cs)"

definition split :: "string \<Rightarrow> string list" where
  "split s = split_run [] s"

text \<open>
  \<open>s.splitlines()\<close>: the lines of \<open>s\<close> without their terminators; \<open>\r\n\<close> is one
  terminator; a terminator at the very end opens no further line. The first argument is
  the line being read, reversed.
\<close>

fun splitlines_run :: "string \<Rightarrow> string \<Rightarrow> string list" where
  "splitlines_run cur [] = (if cur = [] then [] else [rev cur])"
| "splitlines_run cur (c # cs) =
     (if c = CR then
        (case cs of
           [] \<Rightarrow> [rev cur]
         | d # ds \<Rightarrow> if d = LF then rev cur # splitlines_run [] ds
                     else rev cur # splitlines_run [] cs)
      else if islinebreak c then rev cur # splitlines_run [] cs
      else splitlines_run (c # cur) cs)"

definition splitlines :: "string \<Rightarrow> string list" where
  "splitlines s = splitlines_run [] s"

text \<open>\<open>s.rstrip(".")\<close>: \<open>s\<close> without the dots at its end.\<close>

fun rstrip_dot :: "string \<Rightarrow> string" where
  "rstrip_dot [] = []"
| "rstrip_dot (c # cs) =
     (let r = rstrip_dot cs in if r = [] \<and> c = CHR ''.'' then [] else c # r)"

section \<open>The zone file stream: \<open>extract_zonefile_urls\<close>\<close>

text \<open>
  The test of the two comprehensions of \<open>extract_zonefile_urls\<close>:
  \<^verbatim>\<open>(splitted_line := line.split()) and (url := splitted_line[0].lower().rstrip("."))\<close>.
  \<open>Some url\<close> when both are true, \<open>None\<close> when the line has no token or the URL is empty.
\<close>

definition line_url :: "string \<Rightarrow> string option" where
  "line_url line =
     (case split line of
        [] \<Rightarrow> None
      | t # _ \<Rightarrow> (let url = rstrip_dot (lower t) in if url = [] then None else Some url))"

text \<open>
  One read of the stream, as the loop body sees it: the text that
  \<open>d.decompress(chunk).decode()\<close> gives for it, or the exception that reading,
  decompressing or decoding raised.
\<close>

type_synonym chunk = "py_error + string"

text \<open>
  The loop over the chunks with its variable \<open>last_line\<close>, followed by the statement after
  the loop. \<open>lines.pop()\<close> raises \<open>IndexError\<close> on an empty list.
\<close>

fun drain_chunks :: "string \<Rightarrow> chunk list \<Rightarrow> string list generated" where
  "drain_chunks last_line [] =
     (case line_url last_line of
        Some url \<Rightarrow> \<lparr>yielded = [[url]], raised = None\<rparr>
      | None \<Rightarrow> \<lparr>yielded = [], raised = None\<rparr>)"
| "drain_chunks last_line (Inl e # rest) = \<lparr>yielded = [], raised = Some e\<rparr>"
| "drain_chunks last_line (Inr decoded # rest) =
     (let current_chunk_string = last_line @ decoded;
          lines = splitlines current_chunk_string
      in if lines = [] then \<lparr>yielded = [], raised = Some IndexError\<rparr>
         else (let g = drain_chunks (last lines) rest
               in g\<lparr>yielded := List.map_filter line_url (butlast lines) # yielded g\<rparr>))"

text \<open>
  An HTTP header: its name and its value. The value is a fixed text, or
  \<open>f"Bearer {access_token}"\<close> for the access token held.
\<close>

datatype 'tok header_value = Literal string | Bearer 'tok

type_synonym 'tok headers = "(string \<times> 'tok header_value) list"

text \<open>
  \<open>get_async_stream\<close> belongs to \<open>modules.utils.http_requests\<close> and is a parameter: for
  an endpoint and headers it gives \<open>None\<close> (no file), or the reads of the file up to its
  end, or it raises.
\<close>

type_synonym 'tok stream_source = "string \<Rightarrow> 'tok headers \<Rightarrow> py_error + chunk list option"

definition extract_zonefile_urls ::
  "'tok stream_source \<Rightarrow> string \<Rightarrow> 'tok headers \<Rightarrow> string list generated" where
  "extract_zonefile_urls get_async_stream endpoint headers =
     (case get_async_stream endpoint headers of
        Inl e \<Rightarrow> \<lparr>yielded = [], raised = Some e\<rparr>
      | Inr None \<Rightarrow> \<lparr>yielded = [[]], raised = None\<rparr>
      | Inr (Some chunks) \<Rightarrow> drain_chunks [] chunks)"

text \<open>The tokens emitted, in order: the batches joined.\<close>

definition tokens :: "string list generated \<Rightarrow> string list" where
  "tokens g = concat (yielded g)"

text \<open>A stream source that gives the decoded texts \<open>texts\<close>, one for each read.\<close>

definition stream_of :: "string list \<Rightarrow> 'tok stream_source" where
  "stream_of texts = (\<lambda>endpoint headers. Inr (Some (map Inr texts)))"

section \<open>One feed job: \<open>_get_icann_domains\<close>\<close>

text \<open>The headers that \<open>_get_icann_domains\<close> sends.\<close>

definition icann_headers :: "'tok \<Rightarrow> 'tok headers" where
  "icann_headers access_token =
     [(''Content-Type'', Literal ''application/json''),
      (''Connection'', Literal ''keep-alive''),
      (''Cache-Control'', Literal ''no-cache''),
      (''Accept'', Literal ''text/event-stream''),
      (''Accept-Encoding'', Literal ''gzip''),
      (''Authorization'', Bearer access_token)]"

text \<open>
  \<open>generate_hostname_expressions\<close> belongs to \<open>modules.utils.feeds\<close> and is a parameter
  here. The generator passes each batch through it; any exception met while the stream is
  drained is caught, a warning is logged and one empty set is yielded.
\<close>

definition get_icann_domains ::
  "(string list \<Rightarrow> 'h set) \<Rightarrow> 'tok stream_source \<Rightarrow> string \<Rightarrow> 'tok
     \<Rightarrow> log_record list \<times> 'h set generated" where
  "get_icann_domains generate_hostname_expressions get_async_stream endpoint access_token =
     (let url_generator =
            extract_zonefile_urls get_async_stream endpoint (icann_headers access_token);
          batches = map generate_hostname_expressions (yielded url_generator)
      in case raised url_generator of
           None \<Rightarrow> ([], \<lparr>yielded = batches, raised = None\<rparr>)
         | Some error \<Rightarrow>
             ([(WARNING, ''Failed to retrieve ICANN list %s | %s'',
                [ArgStr endpoint, ArgErr error])],
              \<lparr>yielded = batches @ [{}], raised = None\<rparr>))"

section \<open>The CZDS account: \<open>_authenticate\<close> and \<open>_get_approved_endpoints\<close>\<close>

text \<open>
  A value read by \<open>json.loads\<close>. An object is kept as the pairs of its \<open>dict\<close>, whose
  keys are distinct. Numbers are kept as integers; the code below treats every number
  alike.
\<close>

datatype json =
    JNull
  | JBool bool
  | JNum int
  | JStr string
  | JArr "json list"
  | JObj "(string \<times> json) list"

text \<open>\<open>sub in s\<close> on two strings.\<close>

fun contains :: "string \<Rightarrow> string \<Rightarrow> bool" where
  "contains sub [] = (sub = [])"
| "contains sub (c # cs) = (take (length sub) (c # cs) = sub \<or> contains sub cs)"

text \<open>
  \<open>post_async\<close> and \<open>get_async\<close> belong to \<open>modules.utils.http_requests\<close>. The service
  they reach is a parameter: for the credentials posted to the authentication URL, and
  for the access token sent to the links URL, the value that \<open>json.loads\<close> reads from the
  response, or the exception raised on the way to it.
\<close>

record czds =
  post_authenticate :: "string \<Rightarrow> string \<Rightarrow> py_error + json"
  get_links :: "json \<Rightarrow> py_error + json"

text \<open>
  \<open>_authenticate\<close>. On a body that is no \<open>dict\<close>, \<open>"accessToken" not in body\<close> raises
  \<open>TypeError\<close> for values that are no containers, and \<open>body.get\<close> raises
  \<open>AttributeError\<close> for lists and strings.
\<close>

definition authenticate :: "czds \<Rightarrow> string \<Rightarrow> string \<Rightarrow> log_record list \<times> (py_error + json)" where
  "authenticate service username password =
     (case post_authenticate service username password of
        Inl e \<Rightarrow> ([], Inl e)
      | Inr body \<Rightarrow>
          (case body of
             JObj items \<Rightarrow>
               (case map_of items ''accessToken'' of
                  None \<Rightarrow> ([(ERROR, ''Failed to authenticate ICANN user'', [])], Inr (JStr []))
                | Some access_token \<Rightarrow> ([], Inr access_token))
           | JArr items \<Rightarrow>
               (if JStr ''accessToken'' \<notin> set items
                then [(ERROR, ''Failed to authenticate ICANN user'', [])] else [],
                Inl AttributeError)
           | JStr s \<Rightarrow>
               (if \<not> contains ''accessToken'' s
                then [(ERROR, ''Failed to authenticate ICANN user'', [])] else [],
                Inl AttributeError)
           | _ \<Rightarrow> ([], Inl TypeError)))"

text \<open>\<open>_get_approved_endpoints\<close>.\<close>

definition get_approved_endpoints :: "czds \<Rightarrow> json \<Rightarrow> log_record list \<times> (py_error + json list)" where
  "get_approved_endpoints service access_token =
     (case get_links service access_token of
        Inl e \<Rightarrow> ([], Inl e)
      | Inr body \<Rightarrow>
          (case body of
             JArr endpoints \<Rightarrow> ([], Inr endpoints)
           | _ \<Rightarrow> ([(WARNING, ''No user-accessible zone files found.'', [])], Inr [])))"

section \<open>The feed object: \<open>ICANN.__init__\<close>\<close>

text \<open>\<open>s.split(sep)\<close> and \<open>s.rsplit(sep)\<close> for a one-character separator: the pieces between
  its occurrences, at least one piece.\<close>

fun split_on_run :: "char \<Rightarrow> string \<Rightarrow> string \<Rightarrow> string list" where
  "split_on_run sep cur [] = [rev cur]"
| "split_on_run sep cur (c # cs) =
     (if c = sep then rev cur # split_on_run sep [] cs else split_on_run sep (c # cur) cs)"

definition split_on :: "char \<Rightarrow> string \<Rightarrow> string list" where
  "split_on sep s = split_on_run sep [] s"

text \<open>\<open>s.rsplit(sep, 1)\<close>: split once, at the last separator.\<close>

definition rsplit1 :: "char \<Rightarrow> string \<Rightarrow> string list" where
  "rsplit1 sep s =
     (if sep \<in> set s
      then [rev (tl (dropWhile (\<lambda>c. c \<noteq> sep) (rev s))), rev (takeWhile (\<lambda>c. c \<noteq> sep) (rev s))]
      else [s])"

text \<open>
  \<open>f"icann_{url.rsplit('/', 1)[-1].rsplit('.')[-2]}"\<close>: a value that is no string has no
  \<open>rsplit\<close>; the index \<open>-2\<close> needs two pieces.
\<close>

definition db_filename :: "json \<Rightarrow> py_error + string" where
  "db_filename url =
     (case url of
        JStr u \<Rightarrow>
          (let pieces = split_on (CHR ''.'') (last (rsplit1 (CHR ''/'') u))
           in if length pieces < 2 then Inl IndexError
              else Inr (''icann_'' @ pieces ! (length pieces - 2)))
      | _ \<Rightarrow> Inl AttributeError)"

text \<open>The list comprehension over the endpoints: the first exception ends it.\<close>

fun db_filenames_of :: "json list \<Rightarrow> py_error + string list" where
  "db_filenames_of [] = Inr []"
| "db_filenames_of (url # urls) =
     (case db_filename url of
        Inl e \<Rightarrow> Inl e
      | Inr name \<Rightarrow> (case db_filenames_of urls of Inl e \<Rightarrow> Inl e | Inr names \<Rightarrow> Inr (name # names)))"

text \<open>
  A job: the tuple of producer, update time, database file name and the keyword arguments
  of the producer. The producer of every job of this feed is \<open>_get_icann_domains\<close>.
\<close>

datatype producer = GET_ICANN_DOMAINS

record feed_job =
  job_producer :: producer
  job_update_time :: int
  job_db_filename :: string
  job_endpoint :: json
  job_access_token :: json

record icann =
  db_filenames :: "string list"
  jobs :: "feed_job list"

record parser_args =
  sources :: "string list"
  fetch :: bool

text \<open>
  \<open>str(dotenv_values(".env").get(key, ""))\<close>: the file gives each of its keys a value
  or \<open>None\<close>.
\<close>

definition env_str :: "(string \<rightharpoonup> string option) \<Rightarrow> string \<Rightarrow> string" where
  "env_str dotenv key =
     (case dotenv key of None \<Rightarrow> [] | Some None \<Rightarrow> ''None'' | Some (Some v) \<Rightarrow> v)"

definition ICANN_init ::
  "(string \<rightharpoonup> string option) \<Rightarrow> czds \<Rightarrow> parser_args \<Rightarrow> int
     \<Rightarrow> log_record list \<times> (py_error + icann)" where
  "ICANN_init dotenv service args update_time =
     (let username = env_str dotenv ''ICANN_ACCOUNT_USERNAME'';
          password = env_str dotenv ''ICANN_ACCOUNT_PASSWORD''
      in if ''icann'' \<in> set (sources args) then
           (case authenticate service username password of
              (log1, Inl e) \<Rightarrow> (log1, Inl e)
            | (log1, Inr access_token) \<Rightarrow>
                (case get_approved_endpoints service access_token of
                   (log2, Inl e) \<Rightarrow> (log1 @ log2, Inl e)
                 | (log2, Inr endpoints) \<Rightarrow>
                     (case db_filenames_of endpoints of
                        Inl e \<Rightarrow> (log1 @ log2, Inl e)
                      | Inr names \<Rightarrow>
                          (log1 @ log2,
                           Inr \<lparr>db_filenames = names,
                                jobs =
                                  (if fetch args
                                   then map (\<lambda>(name, endpoint).
                                          \<lparr>job_producer = GET_ICANN_DOMAINS,
                                           job_update_time = update_time,
                                           job_db_filename = name,
                                           job_endpoint = endpoint,
                                           job_access_token = access_token\<rparr>)
                                        (zip names endpoints)
                                   else [])\<rparr>))))
         else ([], Inr \<lparr>db_filenames = [], jobs = []\<rparr>))"

text \<open>
  Running a job calls its producer with its keyword arguments. The module reads no clock:
  the request of a job started at the time \<open>now\<close> is made of the endpoint and the token
  that the job holds.
\<close>

definition job_request :: "int \<Rightarrow> feed_job \<Rightarrow> json \<times> json headers" where
  "job_request now job = (job_endpoint job, icann_headers (job_access_token job))"

section \<open>The lookup run of \<open>main.py\<close>\<close>

text \<open>
  A client of one reputation vendor: the largest batch its API takes, and its answer to
  the request for one batch, \<open>None\<close> when the request failed and otherwise the hostnames
  that the response flags.
\<close>

record vendor_client =
  max_batch :: nat
  request :: "string list \<Rightarrow> string list option"

text \<open>
  The batches of a fixed size, the last one shorter when the candidates do not fill it.
  A size of 0 is no batch size; no batch is formed for it.
\<close>

function batches :: "nat \<Rightarrow> 'a list \<Rightarrow> 'a list list" where
  "batches n xs = (if n = 0 \<or> xs = [] then [] else take n xs # batches n (drop n xs))"
  by pat_completeness auto
termination
  by (relation "measure (\<lambda>(n, xs). length xs)") auto

declare batches.simps [simp del]

text \<open>
  Modelled from the spec: \<open>SafeBrowsing.get_malicious_URLs\<close>, whose module
  \<open>safebrowsing\<close> is not among the sources. The candidates are partitioned into batches
  of the vendor's maximum size; the response to a batch is parsed into the hostnames of
  that batch which the vendor flagged; the candidates of a failed request are unknown and
  flagged by nothing; the verdict of the vendor joins the flagged hostnames of all batches.
\<close>

definition flagged_in_batch :: "vendor_client \<Rightarrow> string list \<Rightarrow> string list" where
  "flagged_in_batch vendor batch =
     (case request vendor batch of
        None \<Rightarrow> []
      | Some flagged \<Rightarrow> filter (\<lambda>hostname. hostname \<in> set flagged) batch)"

definition get_malicious_URLs :: "vendor_client \<Rightarrow> string list \<Rightarrow> string list" where
  "get_malicious_URLs vendor urls =
     concat (map (flagged_in_batch vendor) (batches (max_batch vendor) urls))"

text \<open>
  \<open>list(set(xs))\<close>: a list that holds each element of \<open>xs\<close> once. Python fixes no order
  for it, so it is a relation between \<open>xs\<close> and the lists that may result.
\<close>

definition list_of_set :: "'a list \<Rightarrow> 'a list \<Rightarrow> bool" where
  "list_of_set xs result \<longleftrightarrow> distinct result \<and> set result = set xs"

text \<open>\<open>xs[-n:]\<close> for a positive \<open>n\<close>: the last \<open>n\<close> elements, all of them when there are fewer.\<close>

definition last_n :: "nat \<Rightarrow> 'a list \<Rightarrow> 'a list" where
  "last_n n xs = drop (length xs - n) xs"

definition testing_quantity :: nat where
  "testing_quantity = 1500"

datatype mode = Testing | Full

text \<open>
  The script: \<open>whitelist\<close> is what \<open>get_top1m_whitelist()\<close> returns. The relation holds
  of the two arguments that \<open>write_top1m_malicious_urls_to_file\<close> may be called with; in
  the mode \<open>full\<close> the database is updated and nothing is written.
\<close>

definition main_writes ::
  "mode \<Rightarrow> vendor_client \<Rightarrow> vendor_client \<Rightarrow> string list \<Rightarrow> string list \<Rightarrow> string list \<Rightarrow> bool" where
  "main_writes args_mode google yandex whitelist malicious_urls written_top1m_urls \<longleftrightarrow>
     (case args_mode of
        Full \<Rightarrow> False
      | Testing \<Rightarrow>
          (let top1m_urls = last_n testing_quantity whitelist;
               google_malicious_urls = get_malicious_URLs google top1m_urls;
               yandex_malicious_urls = get_malicious_URLs yandex top1m_urls
           in list_of_set (google_malicious_urls @ yandex_malicious_urls) malicious_urls
              \<and> written_top1m_urls = top1m_urls))"

section \<open>Publishing the blocklists: \<open>upload_blocklists\<close>\<close>

text \<open>
  A git tree is a map from paths to the contents of their blobs. The repository as the
  upload meets it: the tree at the head of \<open>main\<close>, and the operations that raise when
  called.
\<close>

type_synonym tree = "string \<rightharpoonup> string"

datatype github_call =
    GetGitRef | GetGitTree | CreateGitTree | GetGitCommit | CreateGitCommit | Compare | EditRef

record repository =
  main_tree :: tree
  failing :: "github_call \<Rightarrow> bool"

text \<open>
  What surrounds the upload: the folder constant \<open>BLOCKLISTS_FOLDER\<close> of
  \<open>modules.filewriter\<close> and \<open>os.sep\<close>; the keys of the \<open>.env\<close> file; the files that can be
  opened, with their contents; and for an access token and a repository name the
  repository that \<open>get_user().get_repo\<close> finds, if any.
\<close>

record upload_env =
  blocklists_folder :: string
  os_sep :: string
  dotenv :: "string \<rightharpoonup> string option"
  files :: "string \<rightharpoonup> string"
  get_repo :: "string \<Rightarrow> string \<Rightarrow> repository option"

text \<open>
  \<open>f"{vendor}_{original_filename.split('_')[1]}{f'_{suffix}' if suffix else ''}.txt"\<close>:
  the index 1 needs a \<open>_\<close> in the name; \<open>None\<close> and the empty suffix are false.
\<close>

definition file_name :: "string \<Rightarrow> string option \<Rightarrow> string \<Rightarrow> py_error + string" where
  "file_name vendor suffix original_filename =
     (case split_on (CHR ''_'') original_filename of
        _ # piece # _ \<Rightarrow>
          Inr (vendor @ ''_'' @ piece
               @ (case suffix of None \<Rightarrow> [] | Some s \<Rightarrow> if s = [] then [] else ''_'' @ s)
               @ ''.txt'')
      | _ \<Rightarrow> Inl IndexError)"

fun file_names_of :: "string \<Rightarrow> string option \<Rightarrow> string list \<Rightarrow> py_error + string list" where
  "file_names_of vendor suffix [] = Inr []"
| "file_names_of vendor suffix (f # fs) =
     (case file_name vendor suffix f of
        Inl e \<Rightarrow> Inl e
      | Inr name \<Rightarrow>
          (case file_names_of vendor suffix fs of
             Inl e \<Rightarrow> Inl e
           | Inr names \<Rightarrow> Inr (name # names)))"

text \<open>
  The loop over \<open>path_list\<close>, which has one path for each name of \<open>file_names\<close>: each
  file is opened and read, and a file that is not empty adds the element
  \<open>(file_names[i], data)\<close>. A file that cannot be opened raises.
\<close>

fun read_elements ::
  "(string \<rightharpoonup> string) \<Rightarrow> (string \<times> string) list \<Rightarrow> py_error + (string \<times> string) list" where
  "read_elements fs [] = Inr []"
| "read_elements fs ((entry, name) # entries) =
     (case fs entry of
        None \<Rightarrow> Inl OSError
      | Some data \<Rightarrow>
          (case read_elements fs entries of
             Inl e \<Rightarrow> Inl e
           | Inr element_list \<Rightarrow>
               Inr (if data \<noteq> [] then (name, data) # element_list else element_list)))"

text \<open>
  \<open>create_git_tree(element_list, base_tree)\<close>: the base tree with each element written at
  its path, in order. \<open>compare("main", commit.sha).files\<close>: the paths at which the tree of
  the commit differs from the tree of \<open>main\<close>; only paths of elements can differ.
\<close>

definition create_git_tree :: "(string \<times> string) list \<Rightarrow> tree \<Rightarrow> tree" where
  "create_git_tree element_list base_tree =
     fold (\<lambda>(path, data) t. t(path \<mapsto> data)) element_list base_tree"

definition compare_files :: "tree \<Rightarrow> tree \<Rightarrow> (string \<times> string) list \<Rightarrow> string list" where
  "compare_files base head element_list =
     filter (\<lambda>path. base path \<noteq> head path) (remdups (map fst element_list))"

text \<open>
  What an upload has done when it ends: the records logged, the tree of the commit object
  it created (if it created one), the tree of the commit that \<open>main_ref.edit\<close> made the
  head of \<open>main\<close> (if it was called), and the exception it ended with (\<open>None\<close> when it
  returned).
\<close>

record upload =
  logged :: "log_record list"
  commit_created :: "tree option"
  main_edited :: "tree option"
  raised_by_upload :: "py_error option"

text \<open>
  The part of the \<open>try\<close> block that talks to the repository, after the files are read.
\<close>

definition push_elements :: "string \<Rightarrow> repository \<Rightarrow> (string \<times> string) list \<Rightarrow> upload" where
  "push_elements vendor repo element_list =
     (let untouched = \<lparr>logged = [], commit_created = None, main_edited = None,
                       raised_by_upload = None\<rparr>
      in if element_list \<noteq> [] then
           (if failing repo CreateGitTree \<or> failing repo GetGitCommit
               \<or> failing repo CreateGitCommit
            then untouched\<lparr>raised_by_upload := Some GithubException\<rparr>
            else
              (let tree = create_git_tree element_list (main_tree repo);
                   created = untouched\<lparr>commit_created := Some tree\<rparr>
               in if failing repo Compare
                  then created\<lparr>raised_by_upload := Some GithubException\<rparr>
                  else
                    (let files_changed = compare_files (main_tree repo) tree element_list
                     in if files_changed \<noteq> [] then
                          (if failing repo EditRef
                           then created\<lparr>raised_by_upload := Some GithubException\<rparr>
                           else created
                                  \<lparr>main_edited := Some tree,
                                   logged := [(INFO, ''Updated repository with %s blocklists'',
                                               [ArgStr vendor])]\<rparr>)
                        else created
                               \<lparr>logged := [(INFO, ''No changes found for %s blocklists'',
                                           [ArgStr vendor])]\<rparr>)))
         else untouched
                \<lparr>logged := [(WARNING, ''%s blocklists are empty, won't update repository'',
                            [ArgStr vendor])]\<rparr>)"

text \<open>The \<open>try\<close> block.\<close>

definition upload_try ::
  "upload_env \<Rightarrow> string \<Rightarrow> string list \<Rightarrow> string option \<Rightarrow> upload" where
  "upload_try env vendor blocklist_filenames suffix =
     (let raise = (\<lambda>e. \<lparr>logged = [], commit_created = None, main_edited = None,
                        raised_by_upload = Some e\<rparr>);
          path_list = map (\<lambda>original_filename.
                        blocklists_folder env @ os_sep env @ original_filename)
                      blocklist_filenames
      in case file_names_of vendor suffix blocklist_filenames of
           Inl e \<Rightarrow> raise e
         | Inr file_names \<Rightarrow>
             (case dotenv env ''GITHUB_ACCESS_TOKEN'' of
                None \<Rightarrow> raise KeyError
              | Some access_token \<Rightarrow>
                  (case dotenv env ''BLOCKLIST_REPOSITORY_NAME'' of
                     None \<Rightarrow> raise KeyError
                   | Some repo_name \<Rightarrow>
                       (case (access_token, repo_name) of
                          (None, _) \<Rightarrow> raise ValueError
                        | (Some _, None) \<Rightarrow> raise ValueError
                        | (Some token, Some name) \<Rightarrow>
                            (case get_repo env token name of
                               None \<Rightarrow> raise GithubException
                             | Some repo \<Rightarrow>
                                 (if failing repo GetGitRef \<or> failing repo GetGitTree
                                  then raise GithubException
                                  else
                                    (case read_elements (files env) (zip path_list file_names) of
                                       Inl e \<Rightarrow> raise e
                                     | Inr element_list \<Rightarrow>
                                         push_elements vendor repo element_list)))))))"

text \<open>
  \<open>upload_blocklists\<close>: the \<open>try\<close> block and its handler, which logs two warnings and
  lets the function return.
\<close>

definition upload_blocklists ::
  "upload_env \<Rightarrow> string \<Rightarrow> string list \<Rightarrow> string option \<Rightarrow> upload" where
  "upload_blocklists env vendor blocklist_filenames suffix =
     (let tried = upload_try env vendor blocklist_filenames suffix
      in case raised_by_upload tried of
           None \<Rightarrow> tried
         | Some error \<Rightarrow>
             tried\<lparr>logged := logged tried
                      @ [(WARNING, ''Failed to update repository with %s blocklists'',
                          [ArgStr vendor]),
                         (WARNING, ''%s'', [ArgErr error])],
                    raised_by_upload := None\<rparr>)"

section \<open>Example environments\<close>

text \<open>A CZDS service that gives the same two answers to every request.\<close>

definition answering :: "(py_error + json) \<Rightarrow> (py_error + json) \<Rightarrow> czds" where
  "answering authentication links =
     \<lparr>post_authenticate = (\<lambda>username password. authentication),
      get_links = (\<lambda>access_token. links)\<rparr>"

text \<open>A stream that breaks with \<open>error\<close> after the decoded texts \<open>texts\<close>.\<close>

definition broken_stream_of :: "string list \<Rightarrow> py_error \<Rightarrow> 'tok stream_source" where
  "broken_stream_of texts error = (\<lambda>endpoint headers. Inr (Some (map Inr texts @ [Inl error])))"

text \<open>
  A vendor that flags the hostnames \<open>flagged\<close> in every response, and whose requests for
  the batches \<open>failed\<close> fail.
\<close>

definition vendor_flagging :: "nat \<Rightarrow> string list \<Rightarrow> string list list \<Rightarrow> vendor_client" where
  "vendor_flagging n flagged failed =
     \<lparr>max_batch = n,
      request = (\<lambda>batch. if batch \<in> set failed then None else Some flagged)\<rparr>"

text \<open>
  A repository whose operations all succeed, and a surrounding with both keys in \<open>.env\<close>
  where every token and name reach the repository \<open>repo\<close>.
\<close>

definition working_repository :: "tree \<Rightarrow> repository" where
  "working_repository t = \<lparr>main_tree = t, failing = (\<lambda>call. False)\<rparr>"

definition publishing_env :: "(string \<rightharpoonup> string) \<Rightarrow> repository \<Rightarrow> upload_env" where
  "publishing_env fs repo =
     \<lparr>blocklists_folder = ''blocklists'', os_sep = ''/'',
      dotenv = [''GITHUB_ACCESS_TOKEN'' \<mapsto> Some ''token'',
                ''BLOCKLIST_REPOSITORY_NAME'' \<mapsto> Some ''blocklists-repo''],
      files = fs,
      get_repo = (\<lambda>access_token repo_name. Some repo)\<rparr>"

section \<open>The token of a line, in the words of the specification\<close>

text \<open>The first whitespace-delimited token of a line (empty when the line has none).\<close>

definition first_token :: "string \<Rightarrow> string" where
  "first_token line = takeWhile (\<lambda>c. \<not> isspace c) (dropWhile isspace line)"

text \<open>Stripping a single trailing dot, and stripping every trailing dot.\<close>

definition strip_single_dot :: "string \<Rightarrow> string" where
  "strip_single_dot s = (if s \<noteq> [] \<and> last s = CHR ''.'' then butlast s else s)"

definition strip_trailing_dots :: "string \<Rightarrow> string" where
  "strip_trailing_dots s = rev (dropWhile (\<lambda>c. c = CHR ''.'') (rev s))"

text \<open>
  The token a line gives when one dot is stripped (\<open>spec_token\<close>), and when all of them
  are (\<open>stripped_token\<close>); \<open>None\<close> is a discarded line.
\<close>

definition spec_token :: "string \<Rightarrow> string option" where
  "spec_token line =
     (let t = strip_single_dot (lower (first_token line)) in if t = [] then None else Some t)"

definition stripped_token :: "string \<Rightarrow> string option" where
  "stripped_token line =
     (let t = strip_trailing_dots (lower (first_token line)) in if t = [] then None else Some t)"

section \<open>Properties of the \<open>str\<close> methods\<close>

lemma rstrip_dot_Nil: "rstrip_dot s = [] \<longleftrightarrow> (\<forall>c\<in>set s. c = CHR ''.'')"
  by (induction s) (auto simp: Let_def)

lemma rstrip_dot_eq: "rstrip_dot s = strip_trailing_dots s"
  unfolding strip_trailing_dots_def
  by (induction s) (auto simp: Let_def dropWhile_append rstrip_dot_Nil)

lemma split_run_Nil:
  "split_run cur s = [] \<longleftrightarrow> cur = [] \<and> (\<forall>c\<in>set s. isspace c)"
  by (induction cur s rule: split_run.induct) auto

lemma split_run_hd:
  "split_run cur s = t # ts \<Longrightarrow>
     t = (if cur = [] then first_token s else rev cur @ takeWhile (\<lambda>c. \<not> isspace c) s)"
  by (induction cur s arbitrary: t ts rule: split_run.induct)
     (auto simp: first_token_def split: if_splits)

lemma first_token_Nil: "first_token line = [] \<longleftrightarrow> (\<forall>c\<in>set line. isspace c)"
proof (cases "dropWhile isspace line")
  case Nil
  then have "\<forall>c\<in>set line. isspace c" by simp
  then show ?thesis unfolding first_token_def Nil by simp
next
  case (Cons d ds)
  then have "\<not> isspace d" using hd_dropWhile[of isspace line] by simp
  moreover have "\<not> (\<forall>c\<in>set line. isspace c)"
    using Cons dropWhile_eq_Nil_conv[of isspace line] by simp
  ultimately show ?thesis unfolding first_token_def using Cons by simp
qed

lemma split_Nil_first_token: "split line = [] \<longleftrightarrow> first_token line = []"
  by (simp add: split_def split_run_Nil first_token_Nil)

lemma split_Cons_first_token: "split line = t # ts \<Longrightarrow> t = first_token line"
  using split_run_hd[of "[]" line t ts] by (simp add: split_def)

lemma line_url_stripped: "line_url line = stripped_token line"
proof (cases "split line")
  case Nil
  then have "first_token line = []" by (simp add: split_Nil_first_token)
  with Nil show ?thesis
    by (simp add: line_url_def stripped_token_def lower_def strip_trailing_dots_def)
next
  case (Cons t ts)
  then have "t = first_token line" by (rule split_Cons_first_token)
  with Cons show ?thesis
    by (simp add: line_url_def stripped_token_def rstrip_dot_eq Let_def)
qed

lemma line_url_nonempty: "line_url line = Some url \<Longrightarrow> url \<noteq> []"
  by (auto simp: line_url_def Let_def split: list.splits if_splits)

lemma map_filter_line_url_nonempty: "[] \<notin> set (List.map_filter line_url lines)"
  by (auto simp: List.map_filter_def dest: line_url_nonempty)

section \<open>Properties of the stream decoder\<close>

lemma drain_chunks_nonempty:
  "b \<in> set (yielded (drain_chunks last_line chunks)) \<Longrightarrow> [] \<notin> set b"
proof (induction last_line chunks arbitrary: b rule: drain_chunks.induct)
  case (1 last_line)
  then show ?case by (auto split: option.splits dest: line_url_nonempty)
next
  case (2 last_line e rest)
  then show ?case by simp
next
  case (3 last_line decoded rest)
  show ?case
  proof (cases "splitlines (last_line @ decoded) = []")
    case True
    with 3 show ?thesis by simp
  next
    case False
    with "3.prems" have
      "b = List.map_filter line_url (butlast (splitlines (last_line @ decoded))) \<or>
       b \<in> set (yielded (drain_chunks (last (splitlines (last_line @ decoded))) rest))"
      by (simp add: Let_def)
    then show ?thesis
      using "3.IH"[OF refl refl False] map_filter_line_url_nonempty by auto
  qed
qed

lemma extract_zonefile_urls_nonempty:
  "[] \<notin> set (tokens (extract_zonefile_urls get_async_stream endpoint headers))"
  by (auto simp: tokens_def extract_zonefile_urls_def
           split: sum.splits option.splits dest: drain_chunks_nonempty)

lemma drain_chunks_failure_prefix:
  "\<exists>later. yielded (drain_chunks last_line (chunks @ continuation)) =
            yielded (drain_chunks last_line (chunks @ Inl e # rest)) @ later"
proof (induction last_line chunks rule: drain_chunks.induct)
  case (1 last_line)
  show ?case by simp
next
  case (2 last_line e' rest')
  show ?case by simp
next
  case (3 last_line decoded rest')
  show ?case
  proof (cases "splitlines (last_line @ decoded) = []")
    case True
    then show ?thesis by simp
  next
    case False
    from "3.IH"[OF refl refl False] obtain later where
      "yielded (drain_chunks (last (splitlines (last_line @ decoded))) (rest' @ continuation)) =
       yielded (drain_chunks (last (splitlines (last_line @ decoded))) (rest' @ Inl e # rest))
         @ later"
      by blast
    with False show ?thesis by (simp add: Let_def)
  qed
qed

lemma splitlines_run_Nil: "splitlines_run cur s = [] \<longleftrightarrow> cur = [] \<and> s = []"
  by (induction cur s rule: splitlines_run.induct) (auto split: list.splits)

lemma splitlines_run_append:
  "s \<noteq> [] \<Longrightarrow> \<not> islinebreak (last s) \<Longrightarrow>
     splitlines_run cur (s @ t) =
       butlast (splitlines_run cur s) @ splitlines_run (rev (last (splitlines_run cur s))) t"
proof (induction cur s rule: splitlines_run.induct)
  case (1 cur)
  then show ?case by simp
next
  case (2 cur c cs)
  show ?case
  proof (cases "cs = []")
    case True
    with "2.prems" show ?thesis by (simp add: islinebreak_def)
  next
    case False
    then obtain d ds where cs: "cs = d # ds" by (cases cs) auto
    from False "2.prems" have l: "\<not> islinebreak (last cs)" by simp
    show ?thesis
    proof (cases "c = CR")
      case True
      show ?thesis
      proof (cases "d = LF")
        case dLF: True
        with l cs have ds: "ds \<noteq> []" by (auto simp: islinebreak_def)
        with l cs have lds: "\<not> islinebreak (last ds)" by simp
        have ne: "splitlines_run [] ds \<noteq> []" using ds by (simp add: splitlines_run_Nil)
        from "2.IH"(1)[OF True cs dLF ds lds] True cs dLF ne show ?thesis by simp
      next
        case dn: False
        have ne: "splitlines_run [] cs \<noteq> []" using False by (simp add: splitlines_run_Nil)
        from "2.IH"(2)[OF True cs dn False l] True cs dn ne show ?thesis by simp
      qed
    next
      case nCR: False
      show ?thesis
      proof (cases "islinebreak c")
        case True
        have ne: "splitlines_run [] cs \<noteq> []" using False by (simp add: splitlines_run_Nil)
        from "2.IH"(3)[OF nCR True False l] nCR True ne show ?thesis by simp
      next
        case nb: False
        from "2.IH"(4)[OF nCR nb False l] nCR nb show ?thesis by simp
      qed
    qed
  qed
qed

lemma splitlines_run_no_break:
  "\<forall>ch\<in>set cur. \<not> islinebreak ch \<Longrightarrow> line \<in> set (splitlines_run cur s) \<Longrightarrow>
     \<forall>ch\<in>set line. \<not> islinebreak ch"
proof (induction cur s rule: splitlines_run.induct)
  case (1 cur)
  then show ?case by (auto split: if_splits)
next
  case (2 cur c cs)
  have e: "\<forall>ch\<in>set []. \<not> islinebreak ch" by simp
  show ?case
  proof (cases "c = CR")
    case True
    show ?thesis
    proof (cases cs)
      case Nil
      with True "2.prems" show ?thesis by auto
    next
      case (Cons d ds)
      show ?thesis
      proof (cases "d = LF")
        case dLF: True
        from "2.prems"(2) True Cons dLF
        have "line = rev cur \<or> line \<in> set (splitlines_run [] ds)" by simp
        then show ?thesis
          using "2.prems"(1) "2.IH"(1)[OF True Cons dLF e] by auto
      next
        case dn: False
        from "2.prems"(2) True Cons dn
        have "line = rev cur \<or> line \<in> set (splitlines_run [] cs)" by simp
        then show ?thesis
          using "2.prems"(1) "2.IH"(2)[OF True Cons dn e] by auto
      qed
    qed
  next
    case nCR: False
    show ?thesis
    proof (cases "islinebreak c")
      case True
      from "2.prems"(2) nCR True
      have "line = rev cur \<or> line \<in> set (splitlines_run [] cs)" by simp
      then show ?thesis
        using "2.prems"(1) "2.IH"(3)[OF nCR True e] by auto
    next
      case nb: False
      from "2.prems"(2) nCR nb have l: "line \<in> set (splitlines_run (c # cur) cs)" by simp
      from "2.prems"(1) nb have "\<forall>ch\<in>set (c # cur). \<not> islinebreak ch" by simp
      from "2.IH"(4)[OF nCR nb this l] show ?thesis .
    qed
  qed
qed

lemma splitlines_run_cur:
  "\<forall>ch\<in>set cur. \<not> islinebreak ch \<Longrightarrow> splitlines_run cur t = splitlines_run [] (rev cur @ t)"
proof (induction cur arbitrary: t)
  case Nil
  show ?case by simp
next
  case (Cons c cur)
  then have c: "\<not> islinebreak c" and "\<forall>ch\<in>set cur. \<not> islinebreak ch" by simp_all
  then have "splitlines_run cur (c # t) = splitlines_run [] (rev cur @ c # t)"
    using Cons.IH[of "c # t"] by simp
  moreover from c have "c \<noteq> CR" by (auto simp: islinebreak_def)
  ultimately show ?case using c by simp
qed

lemma splitlines_append:
  assumes "s \<noteq> []" and "\<not> islinebreak (last s)"
  shows "splitlines (s @ t) = butlast (splitlines s) @ splitlines (last (splitlines s) @ t)"
proof -
  have ne: "splitlines_run [] s \<noteq> []" using assms(1) by (simp add: splitlines_run_Nil)
  then have "last (splitlines_run [] s) \<in> set (splitlines_run [] s)" by simp
  then have "\<forall>ch\<in>set (last (splitlines_run [] s)). \<not> islinebreak ch"
    using splitlines_run_no_break[of "[]" _ s] by simp
  then have "splitlines_run (rev (last (splitlines_run [] s))) t
               = splitlines_run [] (last (splitlines_run [] s) @ t)"
    using splitlines_run_cur[of "rev (last (splitlines_run [] s))" t] by simp
  with splitlines_run_append[OF assms, of "[]" t] show ?thesis by (simp add: splitlines_def)
qed

lemma map_filter_append:
  "List.map_filter f (xs @ ys) = List.map_filter f xs @ List.map_filter f ys"
  by (simp add: List.map_filter_def)

lemma tokens_drain_Cons:
  "splitlines (last_line @ decoded) \<noteq> [] \<Longrightarrow>
     tokens (drain_chunks last_line (Inr decoded # rest))
       = List.map_filter line_url (butlast (splitlines (last_line @ decoded)))
         @ tokens (drain_chunks (last (splitlines (last_line @ decoded))) rest)"
  by (simp add: tokens_def Let_def)

lemma tokens_drain_Nil: "tokens (drain_chunks last_line []) = List.map_filter line_url [last_line]"
  by (simp add: tokens_def List.map_filter_def split: option.splits)

lemma tokens_drain_single:
  "tokens (drain_chunks last_line [Inr decoded])
     = List.map_filter line_url (splitlines (last_line @ decoded))"
proof (cases "splitlines (last_line @ decoded) = []")
  case True
  then show ?thesis by (simp add: tokens_def List.map_filter_def)
next
  case False
  let ?lines = "splitlines (last_line @ decoded)"
  have "List.map_filter line_url (butlast ?lines @ [last ?lines])
          = List.map_filter line_url (butlast ?lines) @ List.map_filter line_url [last ?lines]"
    by (rule map_filter_append)
  moreover have "butlast ?lines @ [last ?lines] = ?lines"
    using False by (rule append_butlast_last_id)
  ultimately have "List.map_filter line_url ?lines
          = List.map_filter line_url (butlast ?lines) @ List.map_filter line_url [last ?lines]"
    by (simp only:)
  then show ?thesis
    by (simp only: tokens_drain_Cons[OF False] tokens_drain_Nil)
qed

lemma tokens_drain_inside_lines:
  "\<forall>c\<in>set chunks. c \<noteq> [] \<and> \<not> islinebreak (last c) \<Longrightarrow>
     tokens (drain_chunks last_line (map Inr chunks @ [Inr final]))
       = List.map_filter line_url (splitlines (last_line @ concat chunks @ final))"
proof (induction chunks arbitrary: last_line)
  case Nil
  show ?case using tokens_drain_single[of last_line final] by simp
next
  case (Cons c chunks)
  then have c: "c \<noteq> []" "\<not> islinebreak (last c)"
    and rest: "\<forall>c\<in>set chunks. c \<noteq> [] \<and> \<not> islinebreak (last c)"
    by simp_all
  let ?lines = "splitlines (last_line @ c)"
  from c have s: "last_line @ c \<noteq> []" "\<not> islinebreak (last (last_line @ c))" by simp_all
  have ne: "?lines \<noteq> []" using s(1) by (simp add: splitlines_def splitlines_run_Nil)
  have "tokens (drain_chunks last_line (Inr c # map Inr chunks @ [Inr final]))
          = List.map_filter line_url (butlast ?lines)
            @ tokens (drain_chunks (last ?lines) (map Inr chunks @ [Inr final]))"
    by (rule tokens_drain_Cons[OF ne])
  also have "\<dots> = List.map_filter line_url (butlast ?lines)
            @ List.map_filter line_url (splitlines (last ?lines @ concat chunks @ final))"
    by (simp only: Cons.IH[OF rest, of "last ?lines"])
  also have "\<dots> = List.map_filter line_url
                     (butlast ?lines @ splitlines (last ?lines @ concat chunks @ final))"
    by (simp only: map_filter_append)
  also have "\<dots> = List.map_filter line_url (splitlines ((last_line @ c) @ concat chunks @ final))"
    by (simp only: splitlines_append[OF s, of "concat chunks @ final"])
  finally show ?case by (simp only: list.map append.simps concat.simps append_assoc)
qed

text \<open>
  Where every read but the last gives a text that is not empty and ends inside a line,
  the reads do not show in the tokens: they are those of the whole text read at once.
\<close>

lemma chunk_boundaries_inside_lines:
  assumes "\<forall>c\<in>set chunks. c \<noteq> [] \<and> \<not> islinebreak (last c)"
  shows "tokens (extract_zonefile_urls (stream_of (chunks @ [final])) endpoint headers)
           = tokens (extract_zonefile_urls (stream_of [concat chunks @ final]) endpoint headers)"
  using tokens_drain_inside_lines[OF assms, of "[]" final]
    tokens_drain_single[of "[]" "concat chunks @ final"]
  by (simp add: extract_zonefile_urls_def stream_of_def)

section \<open>Claims about the stream decoder\<close>

text \<open>
  C1 (chunk-boundary invariance), evaluated where it fails. The two lines
  \<open>EXAMPLE.COM.\tA\n\<close> and \<open>Foo.Test.\tNS\n\<close> arrive as two chunks that end with their
  lines: \<open>splitlines\<close> drops the terminator of the line held back, so the next chunk is
  appended to a complete line and \<open>foo.test\<close> is lost. The same text as one chunk gives
  both tokens. A chunk that decodes to the empty text while nothing is held back ends the
  generator with \<open>IndexError\<close>, while the stream without that chunk is decoded.
\<close>

theorem chunk_boundary_at_line_end:
  "tokens (extract_zonefile_urls
       (stream_of [''EXAMPLE.COM.'' @ [TAB] @ ''A'' @ [LF], ''Foo.Test.'' @ [TAB] @ ''NS'' @ [LF]])
       ''zone'' (icann_headers ''token'')) = [''example.com'']
   \<and> tokens (extract_zonefile_urls
       (stream_of [''EXAMPLE.COM.'' @ [TAB] @ ''A'' @ [LF] @ ''Foo.Test.'' @ [TAB] @ ''NS'' @ [LF]])
       ''zone'' (icann_headers ''token'')) = [''example.com'', ''foo.test'']
   \<and> extract_zonefile_urls (stream_of [[], ''example.com.'' @ [LF]])
       ''zone'' (icann_headers ''token'') = \<lparr>yielded = [], raised = Some IndexError\<rparr>
   \<and> extract_zonefile_urls (stream_of [''example.com.'' @ [LF]])
       ''zone'' (icann_headers ''token'') = \<lparr>yielded = [[], [''example.com'']], raised = None\<rparr>"
  by code_simp

text \<open>
  C2 as worded fails: the line \<open>example.com..\<close> gives the token \<open>example.com\<close>, where
  stripping exactly one trailing dot gives \<open>example.com.\<close>; and the line \<open>..\<close> is
  discarded, where stripping one dot leaves the token \<open>.\<close>.
\<close>

theorem single_dot_counterexample:
  "line_url ''example.com..'' = Some ''example.com''
   \<and> spec_token ''example.com..'' = Some ''example.com.''
   \<and> line_url ''..'' = None \<and> spec_token ''..'' = Some ''.''"
  by code_simp

text \<open>
  C2, amended: the token taken from a line is the line's first whitespace-delimited token,
  lowercased, with every trailing dot stripped; a line with no token, or whose token is
  empty after this, gives nothing. The tokens emitted for a text are the tokens of its
  lines, in order, and no batch of the decoder holds the empty string.
\<close>

theorem line_token_transform:
  "line_url line = stripped_token line
   \<and> tokens (extract_zonefile_urls (stream_of [decoded]) endpoint headers)
       = List.map_filter stripped_token (splitlines decoded)
   \<and> [] \<notin> set (tokens (extract_zonefile_urls get_async_stream endpoint headers))"
proof -
  have "line_url = stripped_token"
    by (rule ext) (rule line_url_stripped)
  then have "tokens (extract_zonefile_urls (stream_of [decoded]) endpoint headers)
               = List.map_filter stripped_token (splitlines decoded)"
    using tokens_drain_single[of "[]" decoded]
    by (simp add: extract_zonefile_urls_def stream_of_def)
  then show ?thesis
    by (simp add: line_url_stripped extract_zonefile_urls_nonempty)
qed

theorem line_token_transform_witness:
  "line_url (''EXAMPLE.COM...'' @ [TAB] @ ''A'') = Some ''example.com''
   \<and> stripped_token (''EXAMPLE.COM...'' @ [TAB] @ ''A'') = Some ''example.com''
   \<and> tokens (extract_zonefile_urls
         (stream_of [''EXAMPLE.COM...'' @ [TAB] @ ''A'' @ [LF] @ ''...'' @ [LF] @ [LF]
                     @ '' Foo.Test.'' @ [TAB] @ ''NS'' @ [CR, LF] @ ''bar'']) ''zone''
         (icann_headers ''token''))
       = [''example.com'', ''foo.test'', ''bar'']
   \<and> List.map_filter stripped_token
         (splitlines (''EXAMPLE.COM...'' @ [TAB] @ ''A'' @ [LF] @ ''...'' @ [LF] @ [LF]
                      @ '' Foo.Test.'' @ [TAB] @ ''NS'' @ [CR, LF] @ ''bar''))
       = [''example.com'', ''foo.test'', ''bar'']
   \<and> [] \<notin> set (tokens (extract_zonefile_urls
                 (stream_of [''...'' @ [LF] @ ''Foo.Test.'' @ [TAB] @ ''NS'' @ [LF]])
                 ''zone'' (icann_headers ''token'')))"
proof -
  have a: "stripped_token (''EXAMPLE.COM...'' @ [TAB] @ ''A'') = Some ''example.com''"
    by code_simp
  have b: "List.map_filter stripped_token
         (splitlines (''EXAMPLE.COM...'' @ [TAB] @ ''A'' @ [LF] @ ''...'' @ [LF] @ [LF]
                      @ '' Foo.Test.'' @ [TAB] @ ''NS'' @ [CR, LF] @ ''bar''))
       = [''example.com'', ''foo.test'', ''bar'']"
    by code_simp
  note t = line_token_transform[of "''EXAMPLE.COM...'' @ [TAB] @ ''A''"
        "''EXAMPLE.COM...'' @ [TAB] @ ''A'' @ [LF] @ ''...'' @ [LF] @ [LF]
                      @ '' Foo.Test.'' @ [TAB] @ ''NS'' @ [CR, LF] @ ''bar''"
        "''zone''" "icann_headers ''token''"
        "stream_of [''...'' @ [LF] @ ''Foo.Test.'' @ [TAB] @ ''NS'' @ [LF]]"]
  from t a have c1: "line_url (''EXAMPLE.COM...'' @ [TAB] @ ''A'') = Some ''example.com''"
    by (simp only:)
  from t b have c2: "tokens (extract_zonefile_urls
         (stream_of [''EXAMPLE.COM...'' @ [TAB] @ ''A'' @ [LF] @ ''...'' @ [LF] @ [LF]
                     @ '' Foo.Test.'' @ [TAB] @ ''NS'' @ [CR, LF] @ ''bar'']) ''zone''
         (icann_headers ''token''))
       = [''example.com'', ''foo.test'', ''bar'']"
    by (simp only:)
  from t have c3: "[] \<notin> set (tokens (extract_zonefile_urls
                 (stream_of [''...'' @ [LF] @ ''Foo.Test.'' @ [TAB] @ ''NS'' @ [LF]])
                 ''zone'' (icann_headers ''token'')))"
    by (rule conjunct2[THEN conjunct2])
  from c1 a c2 b c3 show ?thesis by (intro conjI)
qed

text \<open>
  C5 as worded fails: when the stream breaks after a first chunk, the caller of
  \<open>_get_icann_domains\<close> is given the batch read so far, then an empty batch, and the
  generator ends as a finished one does: no exception reaches the caller. A stream that
  does not break, with blanks after its first line, gives the caller the same batches.
\<close>

theorem stream_failure_counterexample:
  "get_icann_domains set
     (broken_stream_of [''a.'' @ [LF] @ ''b''] StreamError)
     ''zone'' ''token''
   = ([(WARNING, ''Failed to retrieve ICANN list %s | %s'',
        [ArgStr ''zone'', ArgErr StreamError])],
      \<lparr>yielded = [{''a''}, {}], raised = None\<rparr>)
   \<and> get_icann_domains set
       (stream_of [''a.'' @ [LF] @ '' '', '' ''])
       ''zone'' ''token''
     = ([], \<lparr>yielded = [{''a''}, {}], raised = None\<rparr>)"
  by code_simp

text \<open>
  C5, amended: if reading, decompressing or parsing fails while the stream of a job is
  drained, \<open>_get_icann_domains\<close> catches the exception, logs one warning naming the endpoint
  and the error, yields the batches the decoder gave before the failure, unchanged and in
  order, then one empty batch, and ends without raising.
\<close>

theorem stream_failure_caught:
  assumes "raised (extract_zonefile_urls get_async_stream endpoint (icann_headers access_token))
             = Some error"
  shows "get_icann_domains g get_async_stream endpoint access_token =
           ([(WARNING, ''Failed to retrieve ICANN list %s | %s'',
              [ArgStr endpoint, ArgErr error])],
            \<lparr>yielded = map g (yielded (extract_zonefile_urls get_async_stream endpoint
                                         (icann_headers access_token))) @ [{}],
             raised = None\<rparr>)"
  using assms by (simp add: get_icann_domains_def Let_def)

theorem stream_failure_caught_witness:
  "raised (extract_zonefile_urls
       (broken_stream_of [''a.'' @ [LF] @ ''B.'' @ [LF] @ ''c''] ClientError)
       ''zone'' (icann_headers ''token'')) = Some ClientError
   \<and> get_icann_domains set
       (broken_stream_of [''a.'' @ [LF] @ ''B.'' @ [LF] @ ''c''] ClientError)
       ''zone'' ''token''
     = ([(WARNING, ''Failed to retrieve ICANN list %s | %s'',
          [ArgStr ''zone'', ArgErr ClientError])],
        \<lparr>yielded = [{''a'', ''b''}, {}], raised = None\<rparr>)"
proof -
  let ?src = "broken_stream_of [''a.'' @ [LF] @ ''B.'' @ [LF] @ ''c''] ClientError
                :: string stream_source"
  have r: "raised (extract_zonefile_urls ?src ''zone'' (icann_headers ''token''))
             = Some ClientError"
    by code_simp
  have y: "yielded (extract_zonefile_urls ?src ''zone'' (icann_headers ''token''))
             = [[''a'', ''b'']]"
    by code_simp
  show ?thesis
    using stream_failure_caught[OF r, of set] r y by simp
qed

section \<open>Properties of the lookup run\<close>

lemma batches_subset: "b \<in> set (batches n xs) \<Longrightarrow> set b \<subseteq> set xs"
proof (induction n xs rule: batches.induct)
  case (1 n xs)
  show ?case
  proof (cases "n = 0 \<or> xs = []")
    case True
    with "1.prems" show ?thesis by (simp add: batches.simps[of n xs])
  next
    case False
    with "1.prems" have "b = take n xs \<or> b \<in> set (batches n (drop n xs))"
      by (simp add: batches.simps[of n xs])
    then show ?thesis
    proof
      assume "b = take n xs"
      then show ?thesis by (simp add: set_take_subset)
    next
      assume "b \<in> set (batches n (drop n xs))"
      then have "set b \<subseteq> set (drop n xs)" using "1.IH"[OF False] by simp
      then show ?thesis using set_drop_subset[of n xs] by blast
    qed
  qed
qed

lemma concat_batches: "0 < n \<Longrightarrow> concat (batches n xs) = xs"
proof (induction n xs rule: batches.induct)
  case (1 n xs)
  show ?case
  proof (cases "xs = []")
    case True
    then show ?thesis by (simp add: batches.simps[of n "[]"])
  next
    case False
    with "1.prems" have "concat (batches n (drop n xs)) = drop n xs"
      using "1.IH" by simp
    with False "1.prems" show ?thesis by (simp add: batches.simps[of n xs])
  qed
qed

lemma flagged_in_batch_iff:
  "hostname \<in> set (flagged_in_batch vendor batch) \<longleftrightarrow>
     (\<exists>flagged. request vendor batch = Some flagged
                \<and> hostname \<in> set batch \<and> hostname \<in> set flagged)"
  by (cases "request vendor batch") (auto simp: flagged_in_batch_def)

lemma get_malicious_URLs_iff:
  "hostname \<in> set (get_malicious_URLs vendor urls) \<longleftrightarrow>
     (\<exists>batch\<in>set (batches (max_batch vendor) urls). \<exists>flagged.
        request vendor batch = Some flagged \<and> hostname \<in> set batch \<and> hostname \<in> set flagged)"
  by (auto simp: get_malicious_URLs_def flagged_in_batch_iff)

lemma get_malicious_URLs_subset: "set (get_malicious_URLs vendor urls) \<subseteq> set urls"
  using batches_subset by (fastforce simp: get_malicious_URLs_iff)

lemma last_n_subset: "set (last_n n xs) \<subseteq> set xs"
  by (simp add: last_n_def set_drop_subset)

lemma main_writes_top1m:
  assumes "main_writes args_mode google yandex whitelist malicious_urls top1m_urls"
  shows "top1m_urls = last_n testing_quantity whitelist"
proof -
  from assms have "args_mode = Testing"
    by (cases args_mode) (simp_all add: main_writes_def)
  with assms show ?thesis by (simp add: main_writes_def Let_def)
qed

lemma main_writes_list_of_set:
  assumes "main_writes args_mode google yandex whitelist malicious_urls top1m_urls"
  shows "list_of_set (get_malicious_URLs google top1m_urls
                      @ get_malicious_URLs yandex top1m_urls) malicious_urls"
proof -
  from assms have "args_mode = Testing"
    by (cases args_mode) (simp_all add: main_writes_def)
  with assms show ?thesis by (simp add: main_writes_def Let_def)
qed

lemma main_writes_total:
  "main_writes Testing google yandex whitelist
     (remdups (get_malicious_URLs google (last_n testing_quantity whitelist)
               @ get_malicious_URLs yandex (last_n testing_quantity whitelist)))
     (last_n testing_quantity whitelist)"
  by (simp add: main_writes_def list_of_set_def)

section \<open>Properties of the upload\<close>

lemma file_names_of_all2:
  "file_names_of vendor suffix originals = Inr names \<Longrightarrow>
     list_all2 (\<lambda>original name. file_name vendor suffix original = Inr name) originals names"
  by (induction originals arbitrary: names) (auto split: sum.splits)

lemma zip_map_all2:
  "list_all2 R xs ys \<Longrightarrow> (entry, y) \<in> set (zip (map f xs) ys) \<Longrightarrow>
     \<exists>x\<in>set xs. entry = f x \<and> R x y"
  by (induction xs ys rule: list_all2_induct) auto

lemma read_elements_from_files:
  "read_elements fs entries = Inr element_list \<Longrightarrow> (name, data) \<in> set element_list \<Longrightarrow>
     data \<noteq> [] \<and> (\<exists>entry. (entry, name) \<in> set entries \<and> fs entry = Some data)"
proof (induction fs entries arbitrary: element_list rule: read_elements.induct)
  case (1 fs)
  then show ?case by simp
next
  case (2 fs entry name' entries)
  from "2.prems"(1) obtain d rest where d: "fs entry = Some d"
    and rest: "read_elements fs entries = Inr rest"
    and el: "element_list = (if d \<noteq> [] then (name', d) # rest else rest)"
    by (auto split: option.splits sum.splits)
  show ?case
  proof (cases "(name, data) \<in> set rest")
    case True
    with "2.IH"[OF d rest] show ?thesis by auto
  next
    case False
    with "2.prems"(2) el have "d \<noteq> []" "name = name'" "data = d"
      by (auto split: if_splits)
    with d show ?thesis by auto
  qed
qed

lemma read_elements_all_empty:
  "\<forall>(entry, name)\<in>set entries. fs entry = Some [] \<Longrightarrow> read_elements fs entries = Inr []"
  by (induction fs entries rule: read_elements.induct) auto

lemma create_git_tree_lookup:
  "create_git_tree element_list base path =
     (case map_of (rev element_list) path of None \<Rightarrow> base path | Some data \<Rightarrow> Some data)"
  unfolding create_git_tree_def
  by (induction element_list arbitrary: base) (auto split: option.splits)

lemma create_git_tree_changed:
  "create_git_tree element_list base path \<noteq> base path \<Longrightarrow>
     \<exists>data. (path, data) \<in> set element_list
           \<and> create_git_tree element_list base path = Some data"
  by (auto simp: create_git_tree_lookup split: option.splits dest: map_of_SomeD)

lemma compare_files_Nil:
  "compare_files base (create_git_tree element_list base) element_list = [] \<longleftrightarrow>
     (\<forall>path. base path = create_git_tree element_list base path)"
proof
  assume "\<forall>path. base path = create_git_tree element_list base path"
  then show "compare_files base (create_git_tree element_list base) element_list = []"
    by (simp add: compare_files_def)
next
  assume e: "compare_files base (create_git_tree element_list base) element_list = []"
  show "\<forall>path. base path = create_git_tree element_list base path"
  proof (rule allI, rule ccontr)
    fix path
    assume n: "base path \<noteq> create_git_tree element_list base path"
    then obtain data where "(path, data) \<in> set element_list"
      using create_git_tree_changed[of element_list base path] by auto
    then have "path \<in> set (remdups (map fst element_list))" by force
    with n have "path \<in> set (compare_files base (create_git_tree element_list base) element_list)"
      by (simp add: compare_files_def)
    with e show False by simp
  qed
qed

lemma push_elements_commit:
  "commit_created (push_elements vendor repo element_list) = Some t \<Longrightarrow>
     element_list \<noteq> [] \<and> t = create_git_tree element_list (main_tree repo)"
  by (auto simp: push_elements_def Let_def split: if_splits)

lemma push_elements_edit:
  assumes "main_edited (push_elements vendor repo element_list) = Some t"
  shows "commit_created (push_elements vendor repo element_list) = Some t
         \<and> (\<exists>path. main_tree repo path \<noteq> t path)"
proof -
  from assms have t: "t = create_git_tree element_list (main_tree repo)"
    and c: "commit_created (push_elements vendor repo element_list) = Some t"
    and f: "compare_files (main_tree repo) (create_git_tree element_list (main_tree repo))
              element_list \<noteq> []"
    by (auto simp: push_elements_def Let_def split: if_splits)
  from f t have "\<exists>path. main_tree repo path \<noteq> t path"
    using compare_files_Nil[of "main_tree repo" element_list] by auto
  with c show ?thesis by simp
qed

lemma push_elements_Nil:
  "commit_created (push_elements vendor repo []) = None
   \<and> main_edited (push_elements vendor repo []) = None"
  by (simp add: push_elements_def)

lemma upload_blocklists_effects:
  "commit_created (upload_blocklists env vendor originals suffix)
     = commit_created (upload_try env vendor originals suffix)
   \<and> main_edited (upload_blocklists env vendor originals suffix)
     = main_edited (upload_try env vendor originals suffix)"
  by (simp add: upload_blocklists_def Let_def split: option.splits)

lemma upload_try_cases:
  assumes "dotenv env ''GITHUB_ACCESS_TOKEN'' = Some (Some token)"
    and "dotenv env ''BLOCKLIST_REPOSITORY_NAME'' = Some (Some name)"
    and "get_repo env token name = Some repo"
  shows "(commit_created (upload_try env vendor originals suffix) = None
          \<and> main_edited (upload_try env vendor originals suffix) = None)
         \<or> (\<exists>names element_list.
               file_names_of vendor suffix originals = Inr names
               \<and> read_elements (files env)
                    (zip (map (\<lambda>original. blocklists_folder env @ os_sep env @ original)
                           originals) names) = Inr element_list
               \<and> upload_try env vendor originals suffix
                   = push_elements vendor repo element_list)"
  using assms by (auto simp: upload_try_def Let_def split: sum.splits)

section \<open>Claims about the CZDS account and the feed object\<close>

text \<open>
  C3 as worded fails: for a response whose body is an object without \<open>accessToken\<close>,
  \<open>_authenticate\<close> logs an error and returns the empty string as the token; it signals
  no authentication error.
\<close>

theorem missing_token_counterexample:
  "authenticate (answering (Inr (JObj [(''message'', JStr ''Invalid credentials'')])) (Inr JNull))
     ''user'' ''secret''
   = ([(ERROR, ''Failed to authenticate ICANN user'', [])], Inr (JStr []))"
  by code_simp

text \<open>
  C3, amended: for every authentication response whose parsed body is an object that
  lacks the token field, \<open>_authenticate\<close> logs the error
  \<open>Failed to authenticate ICANN user\<close> and returns the empty string in place of a token.
\<close>

theorem missing_token_blank:
  assumes "post_authenticate service username password = Inr (JObj items)"
    and "map_of items ''accessToken'' = None"
  shows "authenticate service username password
           = ([(ERROR, ''Failed to authenticate ICANN user'', [])], Inr (JStr []))"
  using assms by (simp add: authenticate_def)

theorem missing_token_blank_witness:
  "post_authenticate (answering (Inr (JObj [(''code'', JNum 401)])) (Inr JNull)) ''u'' ''p''
     = Inr (JObj [(''code'', JNum 401)])
   \<and> map_of [(''code'', JNum 401)] ''accessToken'' = None
   \<and> authenticate (answering (Inr (JObj [(''code'', JNum 401)])) (Inr JNull)) ''u'' ''p''
       = ([(ERROR, ''Failed to authenticate ICANN user'', [])], Inr (JStr []))"
proof -
  have a: "post_authenticate (answering (Inr (JObj [(''code'', JNum 401)])) (Inr JNull))
             ''u'' ''p'' = Inr (JObj [(''code'', JNum 401)])"
    by (simp add: answering_def)
  have b: "map_of [(''code'', JNum 401)] ''accessToken'' = None"
    by simp
  show ?thesis using missing_token_blank[OF a b] a b by simp
qed

text \<open>
  C7 as worded fails: a feed constructed at the time 0 holds one job, and the request of
  that job started 25 hours later carries the token issued at the construction. Nothing
  rejects it and nothing authenticates again.
\<close>

theorem stale_token_counterexample:
  "ICANN_init Map.empty
     (answering (Inr (JObj [(''accessToken'', JStr ''issued at 0'')]))
                (Inr (JArr [JStr ''https://czds/com.zone''])))
     \<lparr>sources = [''icann''], fetch = True\<rparr> 0
   = ([], Inr \<lparr>db_filenames = [''icann_com''],
               jobs = [\<lparr>job_producer = GET_ICANN_DOMAINS, job_update_time = 0,
                        job_db_filename = ''icann_com'',
                        job_endpoint = JStr ''https://czds/com.zone'',
                        job_access_token = JStr ''issued at 0''\<rparr>]\<rparr>)
   \<and> job_request (25 * 3600)
        \<lparr>job_producer = GET_ICANN_DOMAINS, job_update_time = 0,
         job_db_filename = ''icann_com'',
         job_endpoint = JStr ''https://czds/com.zone'',
         job_access_token = JStr ''issued at 0''\<rparr>
     = (JStr ''https://czds/com.zone'',
        [(''Content-Type'', Literal ''application/json''),
         (''Connection'', Literal ''keep-alive''),
         (''Cache-Control'', Literal ''no-cache''),
         (''Accept'', Literal ''text/event-stream''),
         (''Accept-Encoding'', Literal ''gzip''),
         (''Authorization'', Bearer (JStr ''issued at 0''))])"
  by code_simp

text \<open>
  C7, amended: the feed authenticates once, when it is constructed; every job it builds
  holds the token returned then, and the request of a job carries that token at whatever
  time the job is started. No time of issue is kept, no token is rejected and no job
  authenticates again.
\<close>

theorem token_fixed_at_construction:
  assumes "ICANN_init env_file service args update_time = (log, Inr feed)"
    and "job \<in> set (jobs feed)"
  shows "snd (authenticate service (env_str env_file ''ICANN_ACCOUNT_USERNAME'')
                (env_str env_file ''ICANN_ACCOUNT_PASSWORD'')) = Inr (job_access_token job)
         \<and> job_request now job = (job_endpoint job, icann_headers (job_access_token job))"
proof (cases "''icann'' \<in> set (sources args)")
  case False
  with assms show ?thesis by (auto simp: ICANN_init_def Let_def)
next
  case True
  obtain log1 r1 where a: "authenticate service (env_str env_file ''ICANN_ACCOUNT_USERNAME'')
                (env_str env_file ''ICANN_ACCOUNT_PASSWORD'') = (log1, r1)"
    by (cases "authenticate service (env_str env_file ''ICANN_ACCOUNT_USERNAME'')
                (env_str env_file ''ICANN_ACCOUNT_PASSWORD'')") auto
  show ?thesis
  proof (cases r1)
    case (Inl e)
    with assms True a show ?thesis by (simp add: ICANN_init_def Let_def)
  next
    case (Inr access_token)
    obtain log2 r2 where g: "get_approved_endpoints service access_token = (log2, r2)"
      by (cases "get_approved_endpoints service access_token") auto
    from assms True a Inr g have "job_access_token job = access_token"
      by (auto simp: ICANN_init_def Let_def split: sum.splits if_splits)
    with a Inr show ?thesis by (simp add: job_request_def)
  qed
qed

theorem token_fixed_at_construction_witness:
  "ICANN_init Map.empty
     (answering (Inr (JObj [(''accessToken'', JStr ''abc'')]))
                (Inr (JArr [JStr ''https://czds/net.zone''])))
     \<lparr>sources = [''icann''], fetch = True\<rparr> 1700000000
   = ([], Inr \<lparr>db_filenames = [''icann_net''],
               jobs = [\<lparr>job_producer = GET_ICANN_DOMAINS, job_update_time = 1700000000,
                        job_db_filename = ''icann_net'',
                        job_endpoint = JStr ''https://czds/net.zone'',
                        job_access_token = JStr ''abc''\<rparr>]\<rparr>)
   \<and> snd (authenticate
        (answering (Inr (JObj [(''accessToken'', JStr ''abc'')]))
                   (Inr (JArr [JStr ''https://czds/net.zone''])))
        (env_str Map.empty ''ICANN_ACCOUNT_USERNAME'')
        (env_str Map.empty ''ICANN_ACCOUNT_PASSWORD'')) = Inr (JStr ''abc'')
   \<and> job_request (1700000000 + 90000)
        \<lparr>job_producer = GET_ICANN_DOMAINS, job_update_time = 1700000000,
         job_db_filename = ''icann_net'',
         job_endpoint = JStr ''https://czds/net.zone'',
         job_access_token = JStr ''abc''\<rparr>
     = (JStr ''https://czds/net.zone'', icann_headers (JStr ''abc''))"
proof -
  let ?service = "answering (Inr (JObj [(''accessToken'', JStr ''abc'')]))
                    (Inr (JArr [JStr ''https://czds/net.zone'']))"
  let ?job = "\<lparr>job_producer = GET_ICANN_DOMAINS, job_update_time = 1700000000,
               job_db_filename = ''icann_net'',
               job_endpoint = JStr ''https://czds/net.zone'',
               job_access_token = JStr ''abc''\<rparr>"
  let ?feed = "\<lparr>db_filenames = [''icann_net''], jobs = [?job]\<rparr>"
  have i: "ICANN_init Map.empty ?service \<lparr>sources = [''icann''], fetch = True\<rparr> 1700000000
             = ([], Inr ?feed)"
    by code_simp
  have j: "?job \<in> set (jobs ?feed)"
    by simp
  show ?thesis
    using token_fixed_at_construction[OF i j, of "1700000000 + 90000"] i by simp
qed

text \<open>
  C8 as worded fails: when the listing is the empty list, the feed is constructed with no
  job and nothing at all is logged.
\<close>

theorem empty_listing_counterexample:
  "get_approved_endpoints
     (answering (Inr (JObj [(''accessToken'', JStr ''abc'')])) (Inr (JArr []))) (JStr ''abc'')
   = ([], Inr [])
   \<and> ICANN_init Map.empty
       (answering (Inr (JObj [(''accessToken'', JStr ''abc'')])) (Inr (JArr [])))
       \<lparr>sources = [''icann''], fetch = True\<rparr> 0
     = ([], Inr \<lparr>db_filenames = [], jobs = []\<rparr>)"
  by code_simp

text \<open>
  C8, amended: when the listing response is not a list, \<open>_get_approved_endpoints\<close> logs the
  warning \<open>No user-accessible zone files found.\<close> and returns the empty list; when it is
  the empty list, the empty list is returned and nothing is logged. In both cases nothing
  is raised, and the feed is constructed with no database file name and no job.
\<close>

theorem no_endpoints:
  assumes "''icann'' \<in> set (sources args)"
    and "authenticate service (env_str env_file ''ICANN_ACCOUNT_USERNAME'')
           (env_str env_file ''ICANN_ACCOUNT_PASSWORD'') = (log1, Inr access_token)"
    and "get_links service access_token = Inr body"
    and "body = JArr [] \<or> (\<forall>endpoints. body \<noteq> JArr endpoints)"
  shows "get_approved_endpoints service access_token =
           (if body = JArr [] then []
            else [(WARNING, ''No user-accessible zone files found.'', [])], Inr [])
         \<and> ICANN_init env_file service args update_time =
           (log1 @ (if body = JArr [] then []
                    else [(WARNING, ''No user-accessible zone files found.'', [])]),
            Inr \<lparr>db_filenames = [], jobs = []\<rparr>)"
proof -
  have g: "get_approved_endpoints service access_token =
           (if body = JArr [] then []
            else [(WARNING, ''No user-accessible zone files found.'', [])], Inr [])"
    using assms(3,4) by (cases body) (auto simp: get_approved_endpoints_def)
  show ?thesis
    using assms(1,2) g by (simp add: ICANN_init_def Let_def)
qed

theorem no_endpoints_witness:
  "''icann'' \<in> set (sources \<lparr>sources = [''top1m'', ''icann''], fetch = True\<rparr>)
   \<and> authenticate
        (answering (Inr (JObj [(''accessToken'', JStr ''abc'')]))
                   (Inr (JObj [(''message'', JStr ''Forbidden'')])))
        (env_str Map.empty ''ICANN_ACCOUNT_USERNAME'')
        (env_str Map.empty ''ICANN_ACCOUNT_PASSWORD'') = ([], Inr (JStr ''abc''))
   \<and> get_approved_endpoints
        (answering (Inr (JObj [(''accessToken'', JStr ''abc'')]))
                   (Inr (JObj [(''message'', JStr ''Forbidden'')]))) (JStr ''abc'')
      = ([(WARNING, ''No user-accessible zone files found.'', [])], Inr [])
   \<and> ICANN_init Map.empty
        (answering (Inr (JObj [(''accessToken'', JStr ''abc'')]))
                   (Inr (JObj [(''message'', JStr ''Forbidden'')])))
        \<lparr>sources = [''top1m'', ''icann''], fetch = True\<rparr> 0
      = ([(WARNING, ''No user-accessible zone files found.'', [])],
         Inr \<lparr>db_filenames = [], jobs = []\<rparr>)"
proof -
  let ?service = "answering (Inr (JObj [(''accessToken'', JStr ''abc'')]))
                    (Inr (JObj [(''message'', JStr ''Forbidden'')]))"
  let ?args = "\<lparr>sources = [''top1m'', ''icann''], fetch = True\<rparr>"
  have s: "''icann'' \<in> set (sources ?args)"
    by simp
  have a: "authenticate ?service (env_str Map.empty ''ICANN_ACCOUNT_USERNAME'')
             (env_str Map.empty ''ICANN_ACCOUNT_PASSWORD'') = ([], Inr (JStr ''abc''))"
    by code_simp
  have l: "get_links ?service (JStr ''abc'') = Inr (JObj [(''message'', JStr ''Forbidden'')])"
    by (simp add: answering_def)
  have b: "JObj [(''message'', JStr ''Forbidden'')] = JArr []
           \<or> (\<forall>endpoints. JObj [(''message'', JStr ''Forbidden'')] \<noteq> JArr endpoints)"
    by simp
  show ?thesis
    using no_endpoints[OF s a l b, of 0] s a by simp
qed

section \<open>Claims about the lookup run\<close>

text \<open>
  C4: in a run of the script, the list written as malicious holds each hostname once and
  its elements are those of the union of the verdicts of the two vendors; every hostname
  in it was flagged by the response of a vendor to a batch that holds it, so the
  candidates of a failed request are left out unless another response flags them.
\<close>

theorem malicious_is_union:
  assumes "main_writes args_mode google yandex whitelist malicious_urls top1m_urls"
  shows "distinct malicious_urls
         \<and> set malicious_urls = set (get_malicious_URLs google top1m_urls)
                                  \<union> set (get_malicious_URLs yandex top1m_urls)
         \<and> (\<forall>hostname\<in>set malicious_urls. \<exists>vendor\<in>{google, yandex}.
               \<exists>batch\<in>set (batches (max_batch vendor) top1m_urls). \<exists>flagged.
                 request vendor batch = Some flagged
                 \<and> hostname \<in> set batch \<and> hostname \<in> set flagged)"
proof -
  from main_writes_list_of_set[OF assms]
  have d: "distinct malicious_urls"
    and s: "set malicious_urls = set (get_malicious_URLs google top1m_urls)
                                  \<union> set (get_malicious_URLs yandex top1m_urls)"
    by (simp_all add: list_of_set_def)
  have "\<exists>vendor\<in>{google, yandex}.
               \<exists>batch\<in>set (batches (max_batch vendor) top1m_urls). \<exists>flagged.
                 request vendor batch = Some flagged
                 \<and> hostname \<in> set batch \<and> hostname \<in> set flagged"
    if "hostname \<in> set malicious_urls" for hostname
    using that s get_malicious_URLs_iff[of hostname google top1m_urls]
      get_malicious_URLs_iff[of hostname yandex top1m_urls] by blast
  with d s show ?thesis by blast
qed

theorem malicious_is_union_witness:
  "main_writes Testing (vendor_flagging 1 [''a''] []) (vendor_flagging 1 [''b'', ''c''] [[''c'']])
     [''a'', ''b'', ''c''] [''b'', ''a''] [''a'', ''b'', ''c'']
   \<and> distinct [''b'', ''a'']
   \<and> set [''b'', ''a'']
       = set (get_malicious_URLs (vendor_flagging 1 [''a''] []) [''a'', ''b'', ''c''])
         \<union> set (get_malicious_URLs (vendor_flagging 1 [''b'', ''c''] [[''c'']])
                  [''a'', ''b'', ''c''])
   \<and> ''c'' \<notin> set [''b'', ''a'']"
proof -
  have h: "main_writes Testing (vendor_flagging 1 [''a''] [])
             (vendor_flagging 1 [''b'', ''c''] [[''c'']])
             [''a'', ''b'', ''c''] [''b'', ''a''] [''a'', ''b'', ''c'']"
    by code_simp
  from malicious_is_union[OF h]
  have u: "distinct [''b'', ''a'']
           \<and> set [''b'', ''a'']
               = set (get_malicious_URLs (vendor_flagging 1 [''a''] []) [''a'', ''b'', ''c''])
                 \<union> set (get_malicious_URLs (vendor_flagging 1 [''b'', ''c''] [[''c'']])
                          [''a'', ''b'', ''c''])"
    by blast
  have c: "''c'' \<notin> set [''b'', ''a'']"
    by simp
  from h u c show ?thesis by blast
qed

text \<open>
  C6: every hostname of the list written as malicious is one of the candidates looked up,
  and every candidate is an entry of the whitelist, whatever the vendors answer and
  whichever of their requests fail.
\<close>

theorem no_invention:
  assumes "main_writes args_mode google yandex whitelist malicious_urls top1m_urls"
  shows "set malicious_urls \<subseteq> set top1m_urls \<and> set top1m_urls \<subseteq> set whitelist"
proof -
  note top = main_writes_top1m[OF assms]
  from main_writes_list_of_set[OF assms]
  have "set malicious_urls = set (get_malicious_URLs google top1m_urls)
                                  \<union> set (get_malicious_URLs yandex top1m_urls)"
    by (simp add: list_of_set_def)
  then have "set malicious_urls \<subseteq> set top1m_urls"
    using get_malicious_URLs_subset[of google top1m_urls]
      get_malicious_URLs_subset[of yandex top1m_urls] by blast
  then show ?thesis using top last_n_subset[of testing_quantity whitelist] by simp
qed

theorem no_invention_witness:
  "main_writes Testing (vendor_flagging 2 [''x'', ''never-a-candidate''] [])
     (vendor_flagging 3 [''z'', ''w''] [[''w'', ''x'', ''y'']])
     [''w'', ''x'', ''y'', ''z''] [''x'', ''z''] [''w'', ''x'', ''y'', ''z'']
   \<and> set [''x'', ''z''] \<subseteq> set [''w'', ''x'', ''y'', ''z'']
   \<and> ''never-a-candidate'' \<notin> set [''x'', ''z'']"
proof -
  have h: "main_writes Testing (vendor_flagging 2 [''x'', ''never-a-candidate''] [])
             (vendor_flagging 3 [''z'', ''w''] [[''w'', ''x'', ''y'']])
             [''w'', ''x'', ''y'', ''z''] [''x'', ''z''] [''w'', ''x'', ''y'', ''z'']"
    by code_simp
  from no_invention[OF h]
  have u: "set [''x'', ''z''] \<subseteq> set [''w'', ''x'', ''y'', ''z'']"
    by blast
  have c: "''never-a-candidate'' \<notin> set [''x'', ''z'']"
    by simp
  from h u c show ?thesis by blast
qed

section \<open>Claims about the upload\<close>

text \<open>
  C9: with the repository at hand, the head of \<open>main\<close> is moved only to the commit just
  created and only when the tree of that commit differs from the tree of \<open>main\<close>; every
  path at which a created commit differs from \<open>main\<close> holds the content, not empty, of
  one of the files given, under the name made for that file, so an empty file is never
  committed; and when all the files are empty no commit is created and \<open>main\<close> is not
  moved. A commit object is created whenever some file is not empty; when nothing
  differs it stays outside the branch.
\<close>

theorem upload_only_changes:
  assumes "dotenv env ''GITHUB_ACCESS_TOKEN'' = Some (Some token)"
    and "dotenv env ''BLOCKLIST_REPOSITORY_NAME'' = Some (Some name)"
    and "get_repo env token name = Some repo"
  shows "(\<forall>t. main_edited (upload_blocklists env vendor originals suffix) = Some t \<longrightarrow>
            commit_created (upload_blocklists env vendor originals suffix) = Some t
            \<and> (\<exists>path. main_tree repo path \<noteq> t path))
         \<and> (\<forall>t path. commit_created (upload_blocklists env vendor originals suffix) = Some t
                     \<and> t path \<noteq> main_tree repo path \<longrightarrow>
              (\<exists>original\<in>set originals. \<exists>data.
                  files env (blocklists_folder env @ os_sep env @ original) = Some data
                  \<and> data \<noteq> [] \<and> file_name vendor suffix original = Inr path
                  \<and> t path = Some data))
         \<and> ((\<forall>original\<in>set originals.
                files env (blocklists_folder env @ os_sep env @ original) = Some [])
              \<longrightarrow> commit_created (upload_blocklists env vendor originals suffix) = None
                  \<and> main_edited (upload_blocklists env vendor originals suffix) = None)"
proof -
  let ?pathf = "\<lambda>original. blocklists_folder env @ os_sep env @ original"
  let ?tried = "upload_try env vendor originals suffix"
  note eff = upload_blocklists_effects[of env vendor originals suffix]
  from upload_try_cases[OF assms, of vendor originals suffix]
  show ?thesis
  proof
    assume "commit_created ?tried = None \<and> main_edited ?tried = None"
    with eff show ?thesis by simp
  next
    assume "\<exists>names element_list.
               file_names_of vendor suffix originals = Inr names
               \<and> read_elements (files env) (zip (map ?pathf originals) names) = Inr element_list
               \<and> ?tried = push_elements vendor repo element_list"
    then obtain names element_list where
      names: "file_names_of vendor suffix originals = Inr names"
      and els: "read_elements (files env) (zip (map ?pathf originals) names) = Inr element_list"
      and tried: "?tried = push_elements vendor repo element_list"
      by blast
    have one: "commit_created ?tried = Some t \<and> (\<exists>path. main_tree repo path \<noteq> t path)"
      if "main_edited ?tried = Some t" for t
      using that tried push_elements_edit[of vendor repo element_list t] by simp
    have two: "\<exists>original\<in>set originals. \<exists>data.
                  files env (?pathf original) = Some data
                  \<and> data \<noteq> [] \<and> file_name vendor suffix original = Inr path
                  \<and> t path = Some data"
      if c: "commit_created ?tried = Some t" and d: "t path \<noteq> main_tree repo path" for t path
    proof -
      from c tried have t: "t = create_git_tree element_list (main_tree repo)"
        using push_elements_commit[of vendor repo element_list t] by simp
      with d obtain data where m: "(path, data) \<in> set element_list" and v: "t path = Some data"
        using create_git_tree_changed[of element_list "main_tree repo" path] by auto
      from read_elements_from_files[OF els m] obtain entry where
        ne: "data \<noteq> []" and z: "(entry, path) \<in> set (zip (map ?pathf originals) names)"
        and f: "files env entry = Some data"
        by blast
      from zip_map_all2[OF file_names_of_all2[OF names] z] obtain original where
        "original \<in> set originals" "entry = ?pathf original"
        "file_name vendor suffix original = Inr path"
        by blast
      with ne f v show ?thesis by blast
    qed
    have three: "commit_created ?tried = None \<and> main_edited ?tried = None"
      if e: "\<forall>original\<in>set originals. files env (?pathf original) = Some []"
    proof -
      have "\<forall>(entry, name)\<in>set (zip (map ?pathf originals) names). files env entry = Some []"
        using e by (auto dest!: set_zip_leftD)
      then have "read_elements (files env) (zip (map ?pathf originals) names) = Inr []"
        by (rule read_elements_all_empty)
      with els have "element_list = []" by simp
      with tried show ?thesis using push_elements_Nil[of vendor repo] by simp
    qed
    from one two three eff show ?thesis by simp
  qed
qed

theorem upload_only_changes_witness:
  "dotenv (publishing_env [''blocklists/a_urls_1'' \<mapsto> ''evil.example'',
                           ''blocklists/a_ips_1'' \<mapsto> '''']
             (working_repository [''Google_urls.txt'' \<mapsto> ''old.example'']))
     ''GITHUB_ACCESS_TOKEN'' = Some (Some ''token'')
   \<and> dotenv (publishing_env [''blocklists/a_urls_1'' \<mapsto> ''evil.example'',
                             ''blocklists/a_ips_1'' \<mapsto> '''']
               (working_repository [''Google_urls.txt'' \<mapsto> ''old.example'']))
       ''BLOCKLIST_REPOSITORY_NAME'' = Some (Some ''blocklists-repo'')
   \<and> get_repo (publishing_env [''blocklists/a_urls_1'' \<mapsto> ''evil.example'',
                               ''blocklists/a_ips_1'' \<mapsto> '''']
                 (working_repository [''Google_urls.txt'' \<mapsto> ''old.example'']))
       ''token'' ''blocklists-repo''
       = Some (working_repository [''Google_urls.txt'' \<mapsto> ''old.example''])
   \<and> main_edited (upload_blocklists
         (publishing_env [''blocklists/a_urls_1'' \<mapsto> ''evil.example'',
                          ''blocklists/a_ips_1'' \<mapsto> '''']
            (working_repository [''Google_urls.txt'' \<mapsto> ''old.example'']))
         ''Google'' [''a_urls_1'', ''a_ips_1''] None)
       = Some (create_git_tree [(''Google_urls.txt'', ''evil.example'')]
                 [''Google_urls.txt'' \<mapsto> ''old.example''])
   \<and> commit_created (upload_blocklists
         (publishing_env [''blocklists/a_urls_1'' \<mapsto> ''evil.example'',
                          ''blocklists/a_ips_1'' \<mapsto> '''']
            (working_repository [''Google_urls.txt'' \<mapsto> ''old.example'']))
         ''Google'' [''a_urls_1'', ''a_ips_1''] None)
       = Some (create_git_tree [(''Google_urls.txt'', ''evil.example'')]
                 [''Google_urls.txt'' \<mapsto> ''old.example''])
   \<and> (\<exists>path. main_tree (working_repository [''Google_urls.txt'' \<mapsto> ''old.example'']) path
               \<noteq> create_git_tree [(''Google_urls.txt'', ''evil.example'')]
                    [''Google_urls.txt'' \<mapsto> ''old.example''] path)
   \<and> create_git_tree [(''Google_urls.txt'', ''evil.example'')]
        [''Google_urls.txt'' \<mapsto> ''old.example''] ''Google_urls.txt'' = Some ''evil.example''
   \<and> create_git_tree [(''Google_urls.txt'', ''evil.example'')]
        [''Google_urls.txt'' \<mapsto> ''old.example''] ''Google_ips.txt'' = None
   \<and> commit_created (upload_blocklists
         (publishing_env [''blocklists/a_urls_1'' \<mapsto> '''', ''blocklists/a_ips_1'' \<mapsto> '''']
            (working_repository [''Google_urls.txt'' \<mapsto> ''old.example'']))
         ''Google'' [''a_urls_1'', ''a_ips_1''] None) = None
   \<and> main_edited (upload_blocklists
         (publishing_env [''blocklists/a_urls_1'' \<mapsto> '''', ''blocklists/a_ips_1'' \<mapsto> '''']
            (working_repository [''Google_urls.txt'' \<mapsto> ''old.example'']))
         ''Google'' [''a_urls_1'', ''a_ips_1''] None) = None"
proof -
  let ?repo = "working_repository [''Google_urls.txt'' \<mapsto> ''old.example'']"
  let ?env = "publishing_env [''blocklists/a_urls_1'' \<mapsto> ''evil.example'',
                              ''blocklists/a_ips_1'' \<mapsto> ''''] ?repo"
  let ?empty = "publishing_env [''blocklists/a_urls_1'' \<mapsto> '''',
                                ''blocklists/a_ips_1'' \<mapsto> ''''] ?repo"
  let ?tree = "create_git_tree [(''Google_urls.txt'', ''evil.example'')]
                 [''Google_urls.txt'' \<mapsto> ''old.example'']"
  have h1: "dotenv ?env ''GITHUB_ACCESS_TOKEN'' = Some (Some ''token'')"
    and h2: "dotenv ?env ''BLOCKLIST_REPOSITORY_NAME'' = Some (Some ''blocklists-repo'')"
    and h3: "get_repo ?env ''token'' ''blocklists-repo'' = Some ?repo"
    by (simp_all add: publishing_env_def)
  have e1: "dotenv ?empty ''GITHUB_ACCESS_TOKEN'' = Some (Some ''token'')"
    and e2: "dotenv ?empty ''BLOCKLIST_REPOSITORY_NAME'' = Some (Some ''blocklists-repo'')"
    and e3: "get_repo ?empty ''token'' ''blocklists-repo'' = Some ?repo"
    by (simp_all add: publishing_env_def)
  have names: "file_names_of ''Google'' None [''a_urls_1'', ''a_ips_1'']
                 = Inr [''Google_urls.txt'', ''Google_ips.txt'']"
    by code_simp
  have changed: "compare_files [''Google_urls.txt'' \<mapsto> ''old.example''] ?tree
                   [(''Google_urls.txt'', ''evil.example'')] = [''Google_urls.txt'']"
    by (simp add: compare_files_def create_git_tree_def)
  have m: "main_edited (upload_blocklists ?env ''Google'' [''a_urls_1'', ''a_ips_1''] None)
             = Some ?tree"
    using names changed
    by (simp add: upload_blocklists_def upload_try_def push_elements_def publishing_env_def
          working_repository_def Let_def)
  have all_empty: "\<forall>original\<in>set [''a_urls_1'', ''a_ips_1''].
          files ?empty (blocklists_folder ?empty @ os_sep ?empty @ original) = Some ''''"
    by (simp add: publishing_env_def)
  have v: "?tree ''Google_urls.txt'' = Some ''evil.example''" "?tree ''Google_ips.txt'' = None"
    by (simp_all add: create_git_tree_def)
  from upload_only_changes[OF h1 h2 h3, of "''Google''" "[''a_urls_1'', ''a_ips_1'']" None] m
  have c: "commit_created (upload_blocklists ?env ''Google'' [''a_urls_1'', ''a_ips_1''] None)
             = Some ?tree \<and> (\<exists>path. main_tree ?repo path \<noteq> ?tree path)"
    by blast
  from upload_only_changes[OF e1 e2 e3, of "''Google''" "[''a_urls_1'', ''a_ips_1'']" None]
    all_empty
  have n: "commit_created (upload_blocklists ?empty ''Google'' [''a_urls_1'', ''a_ips_1''] None)
             = None
           \<and> main_edited (upload_blocklists ?empty ''Google'' [''a_urls_1'', ''a_ips_1''] None)
             = None"
    by blast
  from h1 h2 h3 m c v n show ?thesis by blast
qed

text \<open>
  C10: whatever the vendor, the file names, the suffix and the surroundings, the upload
  returns without an exception; when the \<open>try\<close> block meets one, be it from a file name,
  a key of \<open>.env\<close>, a file or the repository, the handler logs two warnings, the second one
  with the exception, after what was logged before.
\<close>

theorem upload_never_raises:
  "raised_by_upload (upload_blocklists env vendor originals suffix) = None
   \<and> (\<forall>error. raised_by_upload (upload_try env vendor originals suffix) = Some error \<longrightarrow>
         logged (upload_blocklists env vendor originals suffix)
           = logged (upload_try env vendor originals suffix)
             @ [(WARNING, ''Failed to update repository with %s blocklists'', [ArgStr vendor]),
                (WARNING, ''%s'', [ArgErr error])])"
  by (simp add: upload_blocklists_def Let_def split: option.splits)

theorem upload_never_raises_witness:
  "raised_by_upload (upload_try (publishing_env Map.empty (working_repository Map.empty))
      ''Yandex'' [''a_urls_1''] None) = Some OSError
   \<and> raised_by_upload (upload_blocklists (publishing_env Map.empty (working_repository Map.empty))
      ''Yandex'' [''a_urls_1''] None) = None
   \<and> logged (upload_blocklists (publishing_env Map.empty (working_repository Map.empty))
      ''Yandex'' [''a_urls_1''] None)
     = [(WARNING, ''Failed to update repository with %s blocklists'', [ArgStr ''Yandex'']),
        (WARNING, ''%s'', [ArgErr OSError])]"
proof -
  let ?env = "publishing_env Map.empty (working_repository Map.empty)"
  have r: "raised_by_upload (upload_try ?env ''Yandex'' [''a_urls_1''] None) = Some OSError"
    by code_simp
  have l: "logged (upload_try ?env ''Yandex'' [''a_urls_1''] None) = []"
    by code_simp
  show ?thesis
    using upload_never_raises[of ?env "''Yandex''" "[''a_urls_1'']" None] r l by simp
qed

end
